theory Spec2Isabelle
  imports Main "HOL-Library.Monad_Syntax" "HOL-Library.Sublist"
begin

section \<open>Personal library app: the book store of \<open>src/App.js\<close>\<close>

text \<open>
  The app keeps its books in React Native's AsyncStorage, a durable map from string
  keys to string values. Every mutation reads the whole list, changes it and writes
  it back. The model below follows \<open>App.js\<close> function by function:
  \<^item> a book \<open>{id, title, author, status}\<close> is a record;
  \<^item> a JavaScript string is a list of code units. The model covers the code units
    U+0000 to U+00FF, one \<open>char\<close> each;
  \<^item> an id is an integer (\<open>Date.now()\<close> gives one, of about thirteen digits), printed
    in decimal by \<open>String\<close> and by \<open>JSON.stringify\<close>, as JavaScript does for every
    integer of magnitude below \<open>10^21\<close>;
  \<^item> the storage, the console, the alert box and the navigator are fields of one
    \<open>world\<close> record that every operation takes and returns;
  \<^item> a rejected storage promise and a \<open>SyntaxError\<close> of \<open>JSON.parse\<close> are values
    of the type \<open>error\<close>, and each \<open>try/catch\<close> of the source is a case split.
\<close>

subsection \<open>Books\<close>

record book =
  id' :: int
  title :: string
  author :: string
  status :: string

subsection \<open>Strings and numbers of the runtime\<close>

text \<open>
  \<open>String.prototype.trim\<close> removes white space and line terminators from both ends.
  Among the code units of the model these are TAB, LF, VT, FF, CR, SPACE and NBSP.
\<close>

definition is_space :: "char \<Rightarrow> bool" where
  "is_space c = ((of_char c :: nat) \<in> {9, 10, 11, 12, 13, 32, 160})"

definition trim :: "string \<Rightarrow> string" where
  "trim s = rev (dropWhile is_space (rev (dropWhile is_space s)))"

definition digit_char :: "nat \<Rightarrow> char" where
  "digit_char d = char_of (48 + d)"

fun digits :: "nat \<Rightarrow> string" where
  "digits n = (if n < 10 then [digit_char n] else digits (n div 10) @ [digit_char (n mod 10)])"

declare digits.simps [simp del]

text \<open>\<open>String(n)\<close> for an integer \<open>n\<close>: the decimal numeral, with a minus sign when negative.\<close>

definition String_number :: "int \<Rightarrow> string" where
  "String_number n = (if n < 0 then CHR ''-'' # digits (nat (- n)) else digits (nat n))"

subsection \<open>JSON text of a list of books\<close>

definition dquote :: char where
  "dquote = CHR 0x22"

definition backslash :: char where
  "backslash = CHR 0x5C"

definition hex_char :: "nat \<Rightarrow> char" where
  "hex_char d = (if d < 10 then char_of (48 + d) else char_of (87 + d))"

text \<open>
  \<open>JSON.stringify\<close> on a string: the quote and the backslash are escaped, control
  characters get their short escape or \<open>\u00XX\<close>, everything else is copied.
\<close>

definition escape :: "char \<Rightarrow> string" where
  "escape c =
     (let n = (of_char c :: nat) in
      if c = dquote then [backslash, dquote]
      else if c = backslash then [backslash, backslash]
      else if n = 8 then [backslash, CHR ''b'']
      else if n = 9 then [backslash, CHR ''t'']
      else if n = 10 then [backslash, CHR ''n'']
      else if n = 12 then [backslash, CHR ''f'']
      else if n = 13 then [backslash, CHR ''r'']
      else if n < 32 then [backslash, CHR ''u'', CHR ''0'', CHR ''0'', hex_char (n div 16), hex_char (n mod 16)]
      else [c])"

definition quote :: "string \<Rightarrow> string" where
  "quote s = dquote # concat (map escape s) @ [dquote]"

definition stringify_book :: "book \<Rightarrow> string" where
  "stringify_book b =
     ''{'' @ quote ''id'' @ '':'' @ String_number (id' b) @
     '','' @ quote ''title'' @ '':'' @ quote (title b) @
     '','' @ quote ''author'' @ '':'' @ quote (author b) @
     '','' @ quote ''status'' @ '':'' @ quote (status b) @ ''}''"

fun stringify_elems :: "book list \<Rightarrow> string" where
  "stringify_elems [] = []"
| "stringify_elems [b] = stringify_book b"
| "stringify_elems (b # bs) = stringify_book b @ '','' @ stringify_elems bs"

text \<open>\<open>JSON.stringify(books)\<close> for an array of book objects.\<close>

definition JSON_stringify :: "book list \<Rightarrow> string" where
  "JSON_stringify books = ''['' @ stringify_elems books @ '']''"

text \<open>
  \<open>JSON.parse\<close> on the text of the \<open>books\<close> entry. The model reads the compact layout
  that \<open>JSON.stringify\<close> writes (no white space, the four keys in the order
  id, title, author, status, an integer id) and every string escape of JSON that
  denotes a code unit of the model; the result is the list of books. On a text that
  is not JSON, \<open>JSON.parse\<close> throws a \<open>SyntaxError\<close>: this is the model's \<open>None\<close>.

  The model answers \<open>None\<close> also on JSON of another shape (\<open>null\<close>, an object, a number,
  a list laid out otherwise). There the code differs: \<open>JSON.parse\<close> returns the value,
  \<open>getBooks\<close> hands it on without a log, and \<open>find\<close>, \<open>filter\<close>, \<open>map\<close> or the spread
  throw a \<open>TypeError\<close> on a value that is not a list. The app never writes such a text,
  and the lists of books are the values of the model: an entry of that kind is
  outside it. A property that depends on how a foreign entry is read is stated for
  the entries that \<open>entry_modelled\<close> (below) admits.
\<close>

definition expect :: "string \<Rightarrow> string \<Rightarrow> string option" where
  "expect p s = (if take (length p) s = p then Some (drop (length p) s) else None)"

definition is_digit :: "char \<Rightarrow> bool" where
  "is_digit c = (48 \<le> (of_char c :: nat) \<and> (of_char c :: nat) \<le> 57)"

definition digits_value :: "string \<Rightarrow> nat" where
  "digits_value ds = foldl (\<lambda>a c. 10 * a + (of_char c - 48)) 0 ds"

definition parse_nat :: "string \<Rightarrow> (nat \<times> string) option" where
  "parse_nat s =
     (let ds = takeWhile is_digit s in
      if ds = [] \<or> (length ds > 1 \<and> hd ds = CHR ''0'') then None
      else Some (digits_value ds, dropWhile is_digit s))"

definition parse_number :: "string \<Rightarrow> (int \<times> string) option" where
  "parse_number s =
     (case s of
        [] \<Rightarrow> None
      | c # cs \<Rightarrow>
          if c = CHR ''-'' then
            (case parse_nat cs of
               None \<Rightarrow> None
             | Some (n, r) \<Rightarrow> if n = 0 then None else Some (- int n, r))
          else map_option (\<lambda>(n, r). (int n, r)) (parse_nat s))"

definition hex_value :: "char \<Rightarrow> nat option" where
  "hex_value c =
     (let n = (of_char c :: nat) in
      if 48 \<le> n \<and> n \<le> 57 then Some (n - 48)
      else if 97 \<le> n \<and> n \<le> 102 then Some (n - 87)
      else if 65 \<le> n \<and> n \<le> 70 then Some (n - 55)
      else None)"

definition unescape :: "char \<Rightarrow> char option" where
  "unescape e =
     (if e = dquote then Some dquote
      else if e = backslash then Some backslash
      else if e = CHR ''/'' then Some CHR ''/''
      else if e = CHR ''b'' then Some (char_of (8 :: nat))
      else if e = CHR ''t'' then Some (char_of (9 :: nat))
      else if e = CHR ''n'' then Some (char_of (10 :: nat))
      else if e = CHR ''f'' then Some (char_of (12 :: nat))
      else if e = CHR ''r'' then Some (char_of (13 :: nat))
      else None)"

definition cons_result :: "char \<Rightarrow> (string \<times> string) option \<Rightarrow> (string \<times> string) option" where
  "cons_result c res = map_option (\<lambda>(t, r). (c # t, r)) res"

text \<open>The characters of a string up to its closing quote, and the text after it.\<close>

fun parse_chars :: "string \<Rightarrow> (string \<times> string) option" where
  "parse_chars [] = None"
| "parse_chars (c # cs) =
     (if c = dquote then Some ([], cs)
      else if c = backslash then
        (case cs of
           [] \<Rightarrow> None
         | e # cs' \<Rightarrow>
             if e = CHR ''u'' then
               (case cs' of
                  a # b # h # l # cs'' \<Rightarrow>
                    (case (hex_value h, hex_value l) of
                       (Some x, Some y) \<Rightarrow>
                         if a = CHR ''0'' \<and> b = CHR ''0''
                         then cons_result (char_of (16 * x + y)) (parse_chars cs'')
                         else None
                     | _ \<Rightarrow> None)
                | _ \<Rightarrow> None)
             else
               (case unescape e of
                  None \<Rightarrow> None
                | Some ch \<Rightarrow> cons_result ch (parse_chars cs')))
      else if (of_char c :: nat) < 32 then None
      else cons_result c (parse_chars cs))"

definition parse_string :: "string \<Rightarrow> (string \<times> string) option" where
  "parse_string s = (case s of [] \<Rightarrow> None | c # cs \<Rightarrow> if c = dquote then parse_chars cs else None)"

definition parse_book :: "string \<Rightarrow> (book \<times> string) option" where
  "parse_book s =
     do {
       s1 \<leftarrow> expect (''{'' @ quote ''id'' @ '':'') s;
       (i, s2) \<leftarrow> parse_number s1;
       s3 \<leftarrow> expect ('','' @ quote ''title'' @ '':'') s2;
       (t, s4) \<leftarrow> parse_string s3;
       s5 \<leftarrow> expect ('','' @ quote ''author'' @ '':'') s4;
       (a, s6) \<leftarrow> parse_string s5;
       s7 \<leftarrow> expect ('','' @ quote ''status'' @ '':'') s6;
       (st, s8) \<leftarrow> parse_string s7;
       s9 \<leftarrow> expect ''}'' s8;
       Some (\<lparr>id' = i, title = t, author = a, status = st\<rparr>, s9)
     }"

text \<open>Every parser returns a rest no longer than its input; a book takes at least one character.\<close>

lemma expect_length: "expect p s = Some r \<Longrightarrow> length s = length p + length r"
proof -
  assume "expect p s = Some r"
  then have p: "take (length p) s = p" and r: "r = drop (length p) s"
    by (auto simp: expect_def split: if_splits)
  from p have "length (take (length p) s) = length p"
    by simp
  then have "length p \<le> length s"
    by simp
  with r show ?thesis
    by simp
qed

lemma parse_nat_length: "parse_nat s = Some (n, r) \<Longrightarrow> length r \<le> length s"
  by (auto simp: parse_nat_def Let_def length_dropWhile_le split: if_splits)

lemma parse_number_length: "parse_number s = Some (n, r) \<Longrightarrow> length r \<le> length s"
  by (auto simp: parse_number_def split: list.splits if_splits option.splits dest!: parse_nat_length)

lemma cons_result_Some: "cons_result c res = Some (t, r) \<longleftrightarrow> (\<exists>t'. t = c # t' \<and> res = Some (t', r))"
  by (cases res) (auto simp: cons_result_def)

lemma parse_chars_length: "parse_chars s = Some (t, r) \<Longrightarrow> length r < length s"
proof (induction s arbitrary: t rule: parse_chars.induct)
  case 1
  then show ?case by simp
next
  case (2 c cs)
  show ?case
    using "2.prems" "2.IH"
    by (fastforce simp: cons_result_Some split: if_splits list.splits option.splits)
qed

lemma parse_string_length: "parse_string s = Some (t, r) \<Longrightarrow> length r \<le> length s"
  by (auto simp: parse_string_def split: list.splits if_splits dest!: parse_chars_length)

lemma parse_book_length: "parse_book s = Some (b, r) \<Longrightarrow> length r < length s"
  unfolding parse_book_def
  by (auto simp: Option.bind_eq_Some_conv dest!: expect_length parse_number_length parse_string_length)

text \<open>The books after the opening bracket, separated by commas, up to the closing bracket.\<close>

function parse_elems :: "string \<Rightarrow> book list option" where
  "parse_elems s =
     (case parse_book s of
        None \<Rightarrow> None
      | Some (b, r) \<Rightarrow>
          (case r of
             [] \<Rightarrow> None
           | c # r' \<Rightarrow>
               if c = CHR '']'' then (if r' = [] then Some [b] else None)
               else if c = CHR '','' then map_option (Cons b) (parse_elems r')
               else None))"
  by pat_completeness auto
termination
  by (relation "measure length") (auto dest: parse_book_length)

declare parse_elems.simps [simp del]

definition JSON_parse :: "string \<Rightarrow> book list option" where
  "JSON_parse s =
     (case s of
        [] \<Rightarrow> None
      | c # cs \<Rightarrow>
          if c = CHR ''['' then (if cs = '']'' then Some [] else parse_elems cs)
          else None)"

subsection \<open>The world: AsyncStorage, console, alert box, navigator\<close>

text \<open>
  \<open>AsyncStorage.getItem\<close> and \<open>setItem\<close> return promises that the platform may
  reject. Whether a call is rejected is the platform's choice, so the world carries
  the outcomes of the storage calls to come: the head of \<open>faults\<close> is \<open>True\<close> when
  the next call is rejected, and an empty list means that no call is rejected any
  more. A rejected \<open>setItem\<close> leaves the entry as it was. The \<open>trace\<close> lists what the
  app did to the outside, oldest first: its storage calls, its console messages,
  its alerts and its navigation.
\<close>

datatype error = StorageError | SyntaxError

datatype event =
    GetItem string
  | SetItem string string
  | ConsoleError string error
  | Alert string
  | Navigate string book
  | GoBack

record world =
  items :: "string \<rightharpoonup> string"
  faults :: "bool list"
  trace :: "event list"

definition BOOKS_KEY :: string where
  "BOOKS_KEY = ''books''"

definition LAST_BOOK_KEY :: string where
  "LAST_BOOK_KEY = ''lastBook''"

definition emit :: "event \<Rightarrow> world \<Rightarrow> world" where
  "emit ev w = w\<lparr>trace := trace w @ [ev]\<rparr>"

definition next_fault :: "world \<Rightarrow> bool" where
  "next_fault w = (case faults w of [] \<Rightarrow> False | f # _ \<Rightarrow> f)"

definition storage_call :: "event \<Rightarrow> world \<Rightarrow> bool \<times> world" where
  "storage_call ev w = (next_fault w, emit ev (w\<lparr>faults := tl (faults w)\<rparr>))"

definition getItem :: "string \<Rightarrow> world \<Rightarrow> (error + string option) \<times> world" where
  "getItem k w =
     (let (rejected, w') = storage_call (GetItem k) w in
      if rejected then (Inl StorageError, w') else (Inr (items w' k), w'))"

definition setItem :: "string \<Rightarrow> string \<Rightarrow> world \<Rightarrow> (error + unit) \<times> world" where
  "setItem k v w =
     (let (rejected, w') = storage_call (SetItem k v) w in
      if rejected then (Inl StorageError, w') else (Inr (), w'\<lparr>items := (items w')(k \<mapsto> v)\<rparr>))"

subsection \<open>The helpers \<open>getBooks\<close> and \<open>saveBooks\<close>\<close>

text \<open>
  \<open>getBooks\<close>: \<open>booksStr ? JSON.parse(booksStr) : []\<close> inside \<open>try\<close>; the \<open>catch\<close>
  logs and returns \<open>[]\<close>. A missing entry (\<open>null\<close>) and the empty string are falsy.
\<close>

definition getBooks :: "world \<Rightarrow> book list \<times> world" where
  "getBooks w =
     (case getItem BOOKS_KEY w of
        (Inl e, w') \<Rightarrow> ([], emit (ConsoleError ''Error getting books:'' e) w')
      | (Inr booksStr, w') \<Rightarrow>
          (case booksStr of
             None \<Rightarrow> ([], w')
           | Some s \<Rightarrow>
               if s = [] then ([], w')
               else
                 (case JSON_parse s of
                    None \<Rightarrow> ([], emit (ConsoleError ''Error getting books:'' SyntaxError) w')
                  | Some books \<Rightarrow> (books, w'))))"

text \<open>\<open>saveBooks\<close> returns nothing to its caller, whether the write went through or not.\<close>

definition saveBooks :: "book list \<Rightarrow> world \<Rightarrow> world" where
  "saveBooks books w =
     (case setItem BOOKS_KEY (JSON_stringify books) w of
        (Inl e, w') \<Rightarrow> emit (ConsoleError ''Error saving books:'' e) w'
      | (Inr _, w') \<Rightarrow> w')"

subsection \<open>Home screen: \<open>fetchLastBook\<close>\<close>

text \<open>
  The result is the \<open>lastBook\<close> state of the screen after the effect has run:
  \<open>None\<close> is the initial \<open>null\<close> ("No book opened yet."), \<open>Some book\<close> is what
  \<open>setLastBook(book)\<close> stored. \<open>console.error(e)\<close> has no label, written \<open>[]\<close>.
\<close>

definition fetchLastBook :: "world \<Rightarrow> book option \<times> world" where
  "fetchLastBook w =
     (case getItem LAST_BOOK_KEY w of
        (Inl e, w') \<Rightarrow> (None, emit (ConsoleError [] e) w')
      | (Inr lastBookId, w') \<Rightarrow>
          (case lastBookId of
             None \<Rightarrow> (None, w')
           | Some lid \<Rightarrow>
               if lid = [] then (None, w')
               else
                 (let (books, w'') = getBooks w'
                  in (find (\<lambda>b. String_number (id' b) = lid) books, w''))))"

subsection \<open>Book list screen: the \<open>onPress\<close> handler of \<open>renderItem\<close>\<close>

definition renderItem_onPress :: "book \<Rightarrow> world \<Rightarrow> world" where
  "renderItem_onPress item w =
     (case setItem LAST_BOOK_KEY (String_number (id' item)) w of
        (Inl e, w') \<Rightarrow> emit (ConsoleError [] e) w'
      | (Inr _, w') \<Rightarrow> emit (Navigate ''BookDetails'' item) w')"

subsection \<open>Book details screen: \<open>deleteBook\<close>\<close>

text \<open>
  Nothing inside the \<open>try\<close> of \<open>deleteBook\<close> throws on a list of books: \<open>getBooks\<close>
  and \<open>saveBooks\<close> catch their own errors. Its \<open>catch\<close> branch (log
  "Error deleting book:", no write, no going back) is taken only when \<open>getBooks\<close>
  returns a value that is not a list of books, which is outside the model.
\<close>

definition deleteBook :: "int \<Rightarrow> world \<Rightarrow> world" where
  "deleteBook i w =
     (let (books, w1) = getBooks w;
          updatedBooks = filter (\<lambda>b. id' b \<noteq> i) books;
          w2 = saveBooks updatedBooks w1
      in emit GoBack w2)"

subsection \<open>Add/edit screen: \<open>saveBook\<close>\<close>

text \<open>
  \<open>editing\<close> is \<open>route.params.book\<close>: the book the form was opened with, or nothing
  when the form was opened by "Add Book". \<open>title'\<close>, \<open>author'\<close> and \<open>status'\<close> are the
  three text inputs, and \<open>now\<close> is what \<open>Date.now()\<close> returns during the call.
  \<open>saveBook\<close> has no \<open>try\<close>: on a list of books nothing in it throws. On a value
  that is not a list of books (outside the model) \<open>books.map\<close> or the spread throws,
  and the function ends there, without a write and without going back.
\<close>

definition saveBook :: "book option \<Rightarrow> string \<Rightarrow> string \<Rightarrow> string \<Rightarrow> int \<Rightarrow> world \<Rightarrow> world" where
  "saveBook editing title' author' status' now w =
     (if trim title' = [] \<or> trim author' = [] \<or> trim status' = []
      then emit (Alert ''Please fill out all fields.'') w
      else
        (let (books, w1) = getBooks w in
         case editing of
           Some book \<Rightarrow>
             (let updatedBooks =
                    map (\<lambda>b. if id' b = id' book
                              then b\<lparr>title := title', author := author', status := status'\<rparr>
                              else b) books
              in emit GoBack (saveBooks updatedBooks w1))
         | None \<Rightarrow>
             (let newBook = \<lparr>id' = now, title = title', author = author', status = status'\<rparr>
              in emit GoBack (saveBooks (books @ [newBook]) w1))))"

subsection \<open>Notions used to state the properties\<close>

text \<open>
  The collection that the \<open>books\<close> entry holds: what \<open>getBooks\<close> returns when its
  read is not rejected.
\<close>

definition stored_books :: "world \<Rightarrow> book list" where
  "stored_books w =
     (case items w BOOKS_KEY of
        None \<Rightarrow> []
      | Some s \<Rightarrow> if s = [] then [] else (case JSON_parse s of None \<Rightarrow> [] | Some books \<Rightarrow> books))"

text \<open>None of the next \<open>n\<close> storage calls is rejected.\<close>

definition reliable :: "nat \<Rightarrow> world \<Rightarrow> bool" where
  "reliable n w = (True \<notin> set (take n (faults w)))"

text \<open>The events that the user sees: alerts and navigation, not the console.\<close>

fun visible_event :: "event \<Rightarrow> bool" where
  "visible_event (Alert _) = True"
| "visible_event (Navigate _ _) = True"
| "visible_event GoBack = True"
| "visible_event _ = False"

definition visible :: "world \<Rightarrow> event list" where
  "visible w = filter visible_event (trace w)"

text \<open>
  A submission of the add/edit form: the book the form was opened with (if any), the
  three inputs and the value of \<open>Date.now()\<close>. \<open>submit_all\<close> runs \<open>saveBook\<close> on a
  sequence of submissions, and \<open>added_ids\<close> lists the timestamps that become ids:
  those of the submissions in add mode that pass validation.
\<close>

datatype submission =
  Submission (editing_of: "book option") (title_of: string) (author_of: string) (status_of: string) (now_of: int)

definition submit :: "submission \<Rightarrow> world \<Rightarrow> world" where
  "submit c w = saveBook (editing_of c) (title_of c) (author_of c) (status_of c) (now_of c) w"

fun submit_all :: "submission list \<Rightarrow> world \<Rightarrow> world" where
  "submit_all [] w = w"
| "submit_all (c # cs) w = submit_all cs (submit c w)"

definition passes_validation :: "submission \<Rightarrow> bool" where
  "passes_validation c = (trim (title_of c) \<noteq> [] \<and> trim (author_of c) \<noteq> [] \<and> trim (status_of c) \<noteq> [])"

definition added_ids :: "submission list \<Rightarrow> int list" where
  "added_ids cs = map now_of (filter (\<lambda>c. editing_of c = None \<and> passes_validation c) cs)"

text \<open>The second of the storage calls to come is rejected.\<close>

definition second_fault :: "world \<Rightarrow> bool" where
  "second_fault w = next_fault (w\<lparr>faults := tl (faults w)\<rparr>)"

text \<open>The list that \<open>saveBook\<close> hands to \<open>saveBooks\<close>, given the list it read.\<close>

definition saved :: "book option \<Rightarrow> string \<Rightarrow> string \<Rightarrow> string \<Rightarrow> int \<Rightarrow> book list \<Rightarrow> book list" where
  "saved editing title' author' status' now books =
     (case editing of
        Some book \<Rightarrow>
          map (\<lambda>b. if id' b = id' book
                    then b\<lparr>title := title', author := author', status := status'\<rparr>
                    else b) books
      | None \<Rightarrow> books @ [\<lparr>id' = now, title = title', author = author', status = status'\<rparr>])"





text \<open>
  A world for examples: the \<open>books\<close> entry holds the text of the given list, no storage
  call is rejected and nothing has happened yet.
\<close>

definition shelf :: "book list \<Rightarrow> world" where
  "shelf books = \<lparr>items = [BOOKS_KEY \<mapsto> JSON_stringify books], faults = [], trace = []\<rparr>"

section \<open>The JSON text is read back as written\<close>

lemma expect_append: "expect p (p @ r) = Some r"
  by (simp add: expect_def)

lemma is_digit_digit_char: "d < 10 \<Longrightarrow> is_digit (digit_char d)"
  by (simp add: is_digit_def digit_char_def)

lemma digits_all: "c \<in> set (digits n) \<Longrightarrow> is_digit c"
  by (induction n arbitrary: c rule: digits.induct) (subst (asm) digits.simps, auto simp: is_digit_digit_char split: if_splits)

lemma digits_nonempty: "digits n \<noteq> []"
  by (subst digits.simps) simp

lemma digits_value_snoc: "digits_value (ds @ [c]) = 10 * digits_value ds + (of_char c - 48)"
  by (simp add: digits_value_def)

lemma digits_value_digits: "digits_value (digits n) = n"
proof (induction n rule: digits.induct)
  case (1 n)
  show ?case
  proof (cases "n < 10")
    case True
    then show ?thesis
      by (subst digits.simps) (simp add: digits_value_def digit_char_def)
  next
    case False
    then have "digits_value (digits n) = 10 * digits_value (digits (n div 10)) + (of_char (digit_char (n mod 10)) - 48)"
      by (subst digits.simps) (simp add: digits_value_snoc)
    also have "\<dots> = 10 * (n div 10) + n mod 10"
      using False "1.IH" by (simp add: digit_char_def)
    finally show ?thesis by simp
  qed
qed

lemma hd_digits: "hd (digits n) = CHR ''0'' \<Longrightarrow> n = 0"
proof (induction n rule: digits.induct)
  case (1 n)
  show ?case
  proof (cases "n < 10")
    case True
    with "1.prems" have "digit_char n = CHR ''0''"
      by (subst (asm) digits.simps) simp
    then have "(of_char (digit_char n) :: nat) = of_char CHR ''0''"
      by simp
    with True show ?thesis
      by (simp add: digit_char_def)
  next
    case False
    with "1.prems" have "hd (digits (n div 10)) = CHR ''0''"
      by (subst (asm) digits.simps) (simp add: digits_nonempty)
    with False "1.IH" have "n div 10 = 0" by simp
    with False show ?thesis by simp
  qed
qed


lemma takeWhile_digits: "\<not> is_digit c \<Longrightarrow> takeWhile is_digit (digits n @ c # r) = digits n"
  by (simp add: takeWhile_append2 digits_all)

lemma dropWhile_digits: "\<not> is_digit c \<Longrightarrow> dropWhile is_digit (digits n @ c # r) = c # r"
  by (simp add: dropWhile_append2 digits_all)

lemma parse_nat_digits:
  assumes "\<not> is_digit c"
  shows "parse_nat (digits n @ c # r) = Some (n, c # r)"
proof -
  have "length (digits n) > 1 \<Longrightarrow> hd (digits n) \<noteq> CHR ''0''"
  proof
    assume "length (digits n) > 1" and "hd (digits n) = CHR ''0''"
    then have "n = 0" and "length (digits n) > 1"
      by (auto dest: hd_digits)
    then show False
      by (simp add: digits.simps)
  qed
  then show ?thesis
    using assms
    by (auto simp: parse_nat_def Let_def takeWhile_digits dropWhile_digits digits_nonempty digits_value_digits)
qed

lemma minus_not_digit: "\<not> is_digit CHR ''-''"
  by (simp add: is_digit_def)

lemma hd_digits_not_minus: "hd (digits n) \<noteq> CHR ''-''"
  using digits_all [of "hd (digits n)" n] digits_nonempty [of n] minus_not_digit
  by auto

lemma parse_number_String:
  assumes "\<not> is_digit c"
  shows "parse_number (String_number i @ c # r) = Some (i, c # r)"
proof (cases "i < 0")
  case True
  then have "nat (- i) \<noteq> 0" by simp
  with True show ?thesis
    using parse_nat_digits [OF assms, of "nat (- i)" r]
    by (simp add: parse_number_def String_number_def)
next
  case False
  obtain d ds where ds: "digits (nat i) = d # ds"
    using digits_nonempty [of "nat i"] by (cases "digits (nat i)") auto
  then have "d \<noteq> CHR ''-''"
    using hd_digits_not_minus [of "nat i"] by simp
  with False ds show ?thesis
    using parse_nat_digits [OF assms, of "nat i" r]
    by (simp add: parse_number_def String_number_def)
qed

lemma hex_value_hex_char: "d < 16 \<Longrightarrow> hex_value (hex_char d) = Some d"
  by (simp add: hex_value_def hex_char_def)

lemma char_of_eqI: "(of_char c :: nat) = n \<Longrightarrow> char_of n = c"
  by auto

lemma parse_chars_escape:
  assumes "parse_chars rest = Some (t, r)"
  shows "parse_chars (escape c @ rest) = Some (c # t, r)"
proof -
  let ?n = "of_char c :: nat"
  have n: "?n < 256" by simp
  consider (q) "c = dquote" | (b) "c = backslash" | (s) "?n \<in> {8, 9, 10, 12, 13}"
    | (u) "?n < 32" "?n \<notin> {8, 9, 10, 12, 13}" | (p) "c \<noteq> dquote" "c \<noteq> backslash" "32 \<le> ?n"
    by fastforce
  then show ?thesis
  proof cases
    case q
    then show ?thesis using assms
      by (simp add: escape_def unescape_def cons_result_def dquote_def backslash_def)
  next
    case b
    then show ?thesis using assms
      by (simp add: escape_def unescape_def cons_result_def dquote_def backslash_def)
  next
    case s
    then show ?thesis using assms
      by (auto simp: escape_def unescape_def cons_result_def dquote_def backslash_def Let_def
          intro!: char_of_eqI)
  next
    case u
    then have d: "?n div 16 < 16" "?n mod 16 < 16" and e: "16 * (?n div 16) + ?n mod 16 = ?n"
      by auto
    have c: "c \<noteq> dquote" "c \<noteq> backslash"
      using u by (auto simp: dquote_def backslash_def)
    show ?thesis using assms u c
      by (simp add: escape_def Let_def hex_value_hex_char [OF d(1)] hex_value_hex_char [OF d(2)] e cons_result_def backslash_def dquote_def)
  next
    case p
    then show ?thesis using assms
      by (simp add: escape_def Let_def cons_result_def)
  qed
qed

lemma parse_chars_quote_body: "parse_chars (concat (map escape t) @ dquote # r) = Some (t, r)"
  by (induction t) (simp_all add: parse_chars_escape)

lemma parse_string_quote: "parse_string (quote t @ r) = Some (t, r)"
  by (simp add: parse_string_def quote_def parse_chars_quote_body)


lemma comma_not_digit: "\<not> is_digit CHR '',''"
  by (simp add: is_digit_def)

lemma parse_book_stringify: "parse_book (stringify_book b @ r) = Some (b, r)"
proof -
  define r3 where "r3 = ('','' @ quote ''status'' @ '':'') @ quote (status b) @ ''}'' @ r"
  define r2 where "r2 = ('','' @ quote ''author'' @ '':'') @ quote (author b) @ r3"
  define r1 where "r1 = ('','' @ quote ''title'' @ '':'') @ quote (title b) @ r2"
  have s: "stringify_book b @ r = (''{'' @ quote ''id'' @ '':'') @ String_number (id' b) @ r1"
    by (simp add: stringify_book_def r1_def r2_def r3_def)
  have e1: "expect (''{'' @ quote ''id'' @ '':'') (stringify_book b @ r) = Some (String_number (id' b) @ r1)"
    unfolding s by (rule expect_append)
  have "\<exists>r'. r1 = CHR '','' # r'"
    by (simp add: r1_def)
  then have n: "parse_number (String_number (id' b) @ r1) = Some (id' b, r1)"
    using parse_number_String [OF comma_not_digit] by auto
  have e2: "expect ('','' @ quote ''title'' @ '':'') r1 = Some (quote (title b) @ r2)"
    unfolding r1_def by (rule expect_append)
  have t: "parse_string (quote (title b) @ r2) = Some (title b, r2)"
    by (rule parse_string_quote)
  have e3: "expect ('','' @ quote ''author'' @ '':'') r2 = Some (quote (author b) @ r3)"
    unfolding r2_def by (rule expect_append)
  have a: "parse_string (quote (author b) @ r3) = Some (author b, r3)"
    by (rule parse_string_quote)
  have e4: "expect ('','' @ quote ''status'' @ '':'') r3 = Some (quote (status b) @ ''}'' @ r)"
    unfolding r3_def by (rule expect_append)
  have st: "parse_string (quote (status b) @ ''}'' @ r) = Some (status b, ''}'' @ r)"
    by (rule parse_string_quote)
  have e5: "expect ''}'' (''}'' @ r) = Some r"
    by (rule expect_append)
  show ?thesis
    unfolding parse_book_def e1 by (simp add: n e2 t e3 a e4 st e5 del: append.simps)
qed

lemma stringify_elems_Cons:
  "stringify_elems (b # bs) = stringify_book b @ (if bs = [] then [] else '','' @ stringify_elems bs)"
  by (cases bs) simp_all

lemma parse_elems_stringify: "parse_elems (stringify_elems (b # bs) @ '']'') = Some (b # bs)"
proof (induction bs arbitrary: b)
  case Nil
  have "parse_elems (stringify_book b @ '']'') = Some [b]"
    by (subst parse_elems.simps) (simp add: parse_book_stringify)
  then show ?case by simp
next
  case (Cons c cs)
  have "parse_elems (stringify_book b @ CHR '','' # stringify_elems (c # cs) @ '']'') = Some (b # c # cs)"
    by (subst parse_elems.simps) (simp add: parse_book_stringify Cons.IH del: stringify_elems.simps)
  then show ?case by simp
qed

lemma stringify_elems_not_bracket: "stringify_elems (b # bs) @ r \<noteq> '']''"
  by (simp add: stringify_elems_Cons stringify_book_def)

theorem JSON_parse_stringify: "JSON_parse (JSON_stringify books) = Some books"
proof (cases books)
  case Nil
  then show ?thesis
    by (simp add: JSON_parse_def JSON_stringify_def)
next
  case (Cons b bs)
  then show ?thesis
    using parse_elems_stringify [of b bs] stringify_elems_not_bracket [of b bs "'']''"]
    by (simp add: JSON_parse_def JSON_stringify_def del: stringify_elems.simps)
qed

lemma JSON_stringify_nonempty: "JSON_stringify books \<noteq> []"
  by (simp add: JSON_stringify_def)


lemma digit_char_simps:
  "digit_char 0 = CHR ''0''" "digit_char 1 = CHR ''1''" "digit_char 2 = CHR ''2''"
  "digit_char 3 = CHR ''3''" "digit_char 4 = CHR ''4''" "digit_char 5 = CHR ''5''"
  "digit_char 6 = CHR ''6''" "digit_char 7 = CHR ''7''" "digit_char 8 = CHR ''8''"
  "digit_char 9 = CHR ''9''" "digit_char (Suc 0) = CHR ''1''"
  unfolding digit_char_def by (rule char_of_eqI, simp)+


lemma String_number_inj: "String_number a = String_number b \<Longrightarrow> a = b"
proof -
  assume "String_number a = String_number b"
  then have "parse_number (String_number a @ CHR '','' # []) = parse_number (String_number b @ CHR '','' # [])"
    by simp
  then show "a = b"
    by (simp add: parse_number_String [OF comma_not_digit])
qed

lemma String_number_nonempty: "String_number n \<noteq> []"
  by (simp add: String_number_def digits_nonempty)

subsection \<open>Storage calls\<close>

lemma reliable_Suc: "reliable (Suc n) w \<longleftrightarrow> \<not> next_fault w \<and> reliable n (w\<lparr>faults := tl (faults w)\<rparr>)"
  by (cases "faults w") (auto simp: reliable_def next_fault_def)

lemma reliable_0: "reliable 0 w"
  by (simp add: reliable_def)

lemma reliable_emit: "reliable n (emit ev w) = reliable n w"
  by (simp add: reliable_def emit_def)

lemma next_fault_emit: "next_fault (emit ev w) = next_fault w"
  by (simp add: next_fault_def emit_def)

lemma stored_books_emit: "stored_books (emit ev w) = stored_books w"
  by (simp add: stored_books_def emit_def)

lemma stored_books_cong: "items w' BOOKS_KEY = items w BOOKS_KEY \<Longrightarrow> stored_books w' = stored_books w"
  by (simp add: stored_books_def)

lemma stored_books_written:
  "items w BOOKS_KEY = Some (JSON_stringify books) \<Longrightarrow> stored_books w = books"
  by (simp add: stored_books_def JSON_parse_stringify JSON_stringify_nonempty)

text \<open>What \<open>getBooks\<close> returns and what it leaves behind.\<close>

lemma fst_getBooks: "fst (getBooks w) = (if next_fault w then [] else stored_books w)"
  by (simp add: getBooks_def getItem_def storage_call_def emit_def stored_books_def
      split: option.splits)

lemma items_getBooks: "items (snd (getBooks w)) = items w"
  by (simp add: getBooks_def getItem_def storage_call_def emit_def split: option.splits)

lemma faults_getBooks: "faults (snd (getBooks w)) = tl (faults w)"
  by (simp add: getBooks_def getItem_def storage_call_def emit_def split: option.splits)

lemma visible_getBooks: "visible (snd (getBooks w)) = visible w"
  by (simp add: getBooks_def getItem_def storage_call_def emit_def visible_def split: option.splits)

lemma items_saveBooks:
  "items (saveBooks books w) =
     (if next_fault w then items w else (items w)(BOOKS_KEY \<mapsto> JSON_stringify books))"
  by (simp add: saveBooks_def setItem_def storage_call_def emit_def)

lemma faults_saveBooks: "faults (saveBooks books w) = tl (faults w)"
  by (simp add: saveBooks_def setItem_def storage_call_def emit_def)

lemma visible_saveBooks: "visible (saveBooks books w) = visible w"
  by (simp add: saveBooks_def setItem_def storage_call_def emit_def visible_def)

lemma stored_books_saveBooks:
  "stored_books (saveBooks books w) = (if next_fault w then stored_books w else books)"
  by (simp add: stored_books_def items_saveBooks JSON_parse_stringify JSON_stringify_nonempty)

lemma next_fault_getBooks: "next_fault (snd (getBooks w)) = second_fault w"
  by (simp add: next_fault_def second_fault_def faults_getBooks)

lemma reliable_2: "reliable 2 w \<Longrightarrow> \<not> next_fault w \<and> \<not> second_fault w"
  by (simp add: numeral_2_eq_2 reliable_Suc second_fault_def)

text \<open>The stored collection after \<open>deleteBook\<close> and after \<open>saveBook\<close>, whatever the storage does.\<close>

lemma items_deleteBook:
  "items (deleteBook i w) =
     (if second_fault w then items w
      else (items w)(BOOKS_KEY \<mapsto> JSON_stringify (filter (\<lambda>b. id' b \<noteq> i) (fst (getBooks w)))))"
  by (simp add: deleteBook_def split_beta Let_def emit_def items_saveBooks items_getBooks
      next_fault_getBooks)

lemma stored_books_deleteBook:
  "stored_books (deleteBook i w) =
     (if second_fault w then stored_books w
      else filter (\<lambda>b. id' b \<noteq> i) (if next_fault w then [] else stored_books w))"
  by (simp add: stored_books_def items_deleteBook fst_getBooks JSON_parse_stringify JSON_stringify_nonempty)

lemma items_saveBook:
  assumes "trim t \<noteq> []" "trim a \<noteq> []" "trim s \<noteq> []"
  shows "items (saveBook e t a s n w) =
     (if second_fault w then items w
      else (items w)(BOOKS_KEY \<mapsto> JSON_stringify (saved e t a s n (fst (getBooks w)))))"
  using assms
  by (cases e)
    (simp_all add: saveBook_def saved_def split_beta Let_def emit_def items_saveBooks items_getBooks
      next_fault_getBooks)

lemma stored_books_saveBook:
  assumes "trim t \<noteq> []" "trim a \<noteq> []" "trim s \<noteq> []"
  shows "stored_books (saveBook e t a s n w) =
     (if second_fault w then stored_books w
      else saved e t a s n (if next_fault w then [] else stored_books w))"
  by (simp add: stored_books_def items_saveBook [OF assms] fst_getBooks JSON_parse_stringify JSON_stringify_nonempty)

subsection \<open>Further facts about the operations\<close>

lemma stored_books_shelf: "stored_books (shelf books) = books"
  by (simp add: shelf_def stored_books_written)

lemma items_shelf: "items (shelf books) = [BOOKS_KEY \<mapsto> JSON_stringify books]"
  by (simp add: shelf_def)

lemma reliable_shelf: "reliable n (shelf books)"
  by (simp add: shelf_def reliable_def)

lemma visible_emit: "visible (emit ev w) = visible w @ (if visible_event ev then [ev] else [])"
  by (simp add: visible_def emit_def)

lemma visible_deleteBook: "visible (deleteBook i w) = visible w @ [GoBack]"
  by (simp add: deleteBook_def split_beta Let_def visible_emit visible_saveBooks visible_getBooks)


lemma reliable_after:
  assumes "faults w' = drop k (faults w)" and "reliable (k + n) w"
  shows "reliable n w'"
proof -
  have "take n (drop k (faults w)) = drop k (take (n + k) (faults w))"
    by (simp add: take_drop add.commute)
  then have "set (take n (faults w')) \<subseteq> set (take (k + n) (faults w))"
    using assms(1) by (simp add: set_drop_subset add.commute)
  with assms(2) show ?thesis
    by (auto simp: reliable_def)
qed

lemma reliable_mono: "m \<le> n \<Longrightarrow> reliable n w \<Longrightarrow> reliable m w"
  using set_take_subset_set_take [of m n "faults w"] by (auto simp: reliable_def)

lemma reliable_next: "reliable (Suc n) w \<Longrightarrow> \<not> next_fault w"
  by (simp add: reliable_Suc)

lemma items_onPress:
  "items (renderItem_onPress item w) =
     (if next_fault w then items w else (items w)(LAST_BOOK_KEY \<mapsto> String_number (id' item)))"
  by (simp add: renderItem_onPress_def setItem_def storage_call_def emit_def)

lemma faults_onPress: "faults (renderItem_onPress item w) = tl (faults w)"
  by (simp add: renderItem_onPress_def setItem_def storage_call_def emit_def)

lemma faults_deleteBook: "faults (deleteBook i w) = tl (tl (faults w))"
  by (simp add: deleteBook_def split_beta Let_def emit_def faults_saveBooks faults_getBooks)

lemma keys_differ: "BOOKS_KEY \<noteq> LAST_BOOK_KEY"
  by (simp add: BOOKS_KEY_def LAST_BOOK_KEY_def)

lemma find_String_number_Nil: "find (\<lambda>b. String_number (id' b) = []) books = None"
  by (simp add: find_None_iff String_number_nonempty)

lemma fst_fetchLastBook:
  assumes "\<not> next_fault w" "\<not> second_fault w"
  shows "fst (fetchLastBook w) =
     (case items w LAST_BOOK_KEY of
        None \<Rightarrow> None
      | Some lid \<Rightarrow> find (\<lambda>b. String_number (id' b) = lid) (stored_books w))"
proof -
  define w' where "w' = emit (GetItem LAST_BOOK_KEY) (w\<lparr>faults := tl (faults w)\<rparr>)"
  have g: "getItem LAST_BOOK_KEY w = (Inr (items w LAST_BOOK_KEY), w')"
    using assms(1) by (simp add: getItem_def storage_call_def w'_def emit_def)
  have "\<not> next_fault w'"
    using assms(2) by (simp add: w'_def second_fault_def next_fault_def emit_def)
  then have b: "fst (getBooks w') = stored_books w"
    by (simp add: fst_getBooks w'_def stored_books_def emit_def)
  show ?thesis
    by (simp add: fetchLastBook_def g split_beta b find_String_number_Nil split: option.splits)
qed

lemma trace_getBooks_written:
  assumes "\<not> next_fault w" "items w BOOKS_KEY = Some (JSON_stringify books)"
  shows "trace (snd (getBooks w)) = trace w @ [GetItem BOOKS_KEY]"
  using assms
  by (simp add: getBooks_def getItem_def storage_call_def emit_def JSON_parse_stringify
      JSON_stringify_nonempty)

lemma trace_fetchLastBook:
  assumes "\<not> next_fault w" "\<not> second_fault w"
    and "items w BOOKS_KEY = Some (JSON_stringify books)" and "items w LAST_BOOK_KEY = Some lid" "lid \<noteq> []"
  shows "trace (snd (fetchLastBook w)) = trace w @ [GetItem LAST_BOOK_KEY, GetItem BOOKS_KEY]"
proof -
  define w' where "w' = emit (GetItem LAST_BOOK_KEY) (w\<lparr>faults := tl (faults w)\<rparr>)"
  have g: "getItem LAST_BOOK_KEY w = (Inr (Some lid), w')"
    using assms(1,4) by (simp add: getItem_def storage_call_def w'_def emit_def)
  have "\<not> next_fault w'" "items w' BOOKS_KEY = Some (JSON_stringify books)"
    using assms(2,3) by (simp_all add: w'_def second_fault_def next_fault_def emit_def)
  then have "trace (snd (getBooks w')) = trace w' @ [GetItem BOOKS_KEY]"
    by (rule trace_getBooks_written)
  then show ?thesis
    using assms(5) by (simp add: fetchLastBook_def g split_beta w'_def emit_def)
qed

subsection \<open>Facts about \<open>saveBook\<close> and sequences of submissions\<close>

lemma faults_saveBook:
  "trim t \<noteq> [] \<Longrightarrow> trim a \<noteq> [] \<Longrightarrow> trim s \<noteq> [] \<Longrightarrow>
   faults (saveBook e t a s n w) = tl (tl (faults w))"
  by (cases e)
    (simp_all add: saveBook_def split_beta Let_def emit_def faults_saveBooks faults_getBooks)

lemma map_id_saved_edit:
  "map id' (saved (Some book) t a s n books) = map id' books"
  by (induction books) (simp_all add: saved_def)

lemma saved_add: "saved None t a s n books = books @ [\<lparr>id' = n, title = t, author = a, status = s\<rparr>]"
  by (simp add: saved_def)

lemma saved_edit:
  "saved (Some book) t a s n books =
     map (\<lambda>b. if id' b = id' book then b\<lparr>title := t, author := a, status := s\<rparr> else b) books"
  by (simp add: saved_def)

lemma fault_free_shelf: "\<not> next_fault (shelf books)" "\<not> second_fault (shelf books)"
  by (simp_all add: shelf_def next_fault_def second_fault_def)

lemma added_ids_Cons:
  "added_ids (c # cs) =
     (if editing_of c = None \<and> passes_validation c then now_of c # added_ids cs else added_ids cs)"
  by (simp add: added_ids_def)

lemma submit_rejected: "\<not> passes_validation c \<Longrightarrow> stored_books (submit c w) = stored_books w"
  by (auto simp: submit_def passes_validation_def saveBook_def emit_def stored_books_def)

lemma stored_books_submit:
  assumes "passes_validation c"
  shows "stored_books (submit c w) =
     (if second_fault w then stored_books w
      else saved (editing_of c) (title_of c) (author_of c) (status_of c) (now_of c)
             (if next_fault w then [] else stored_books w))"
  using assms by (simp add: submit_def passes_validation_def stored_books_saveBook)

lemma ids_saved_edit: "id' ` set (saved (Some book) t a s n books) = id' ` set books"
  using map_id_saved_edit [of book t a s n books, THEN arg_cong, of set] by simp

lemma distinct_ids_submit:
  assumes "distinct (map id' (stored_books w) @ added_ids (c # cs))"
  shows "distinct (map id' (stored_books (submit c w)) @ added_ids cs)"
proof (cases "passes_validation c")
  case False
  with assms show ?thesis
    by (simp add: submit_rejected added_ids_Cons)
next
  case True
  show ?thesis
  proof (cases "editing_of c")
    case None
    with True assms show ?thesis
      by (auto simp: stored_books_submit saved_add added_ids_Cons)
  next
    case (Some book)
    with True assms show ?thesis
      by (simp add: stored_books_submit map_id_saved_edit ids_saved_edit added_ids_Cons)
  qed
qed

lemma distinct_ids_submit_all:
  "distinct (map id' (stored_books w) @ added_ids cs) \<Longrightarrow>
   distinct (map id' (stored_books (submit_all cs w)))"
proof (induction cs arbitrary: w)
  case Nil
  then show ?case by (simp add: added_ids_def)
next
  case (Cons c cs)
  from Cons.prems have "distinct (map id' (stored_books (submit c w)) @ added_ids cs)"
    by (rule distinct_ids_submit)
  then show ?case
    by (simp add: Cons.IH)
qed

lemma faults_submit_Nil:
  assumes "faults w = []"
  shows "faults (submit c w) = []"
proof (cases "passes_validation c")
  case True
  then show ?thesis
    using assms by (simp add: submit_def passes_validation_def faults_saveBook)
next
  case False
  then show ?thesis
    using assms by (auto simp: submit_def passes_validation_def saveBook_def emit_def)
qed

lemma no_faults: "faults w = [] \<Longrightarrow> \<not> next_fault w \<and> \<not> second_fault w"
  by (simp add: next_fault_def second_fault_def)


subsection \<open>Texts that are not JSON are refused\<close>












lemma stored_books_faults: "stored_books (w\<lparr>faults := f\<rparr>) = stored_books w"
  by (simp add: stored_books_def)


section \<open>Properties of the store\<close>

text \<open>
  Claim C1 (what a save does), as the code has it. \<open>saveBook\<close> does not look whether an
  id matches: it edits when the form was opened with a book and appends otherwise.
  With inputs that pass validation and both storage calls going through:
  opened with a book, every stored record of that book's id gets the three inputs as
  title, author and status, the ids and the other records stay as they are, and no
  record is appended; opened without a book, one record is appended whose id is the
  value of \<open>Date.now()\<close> and whose fields are the three inputs. In both cases the
  \<open>books\<close> entry afterwards is the JSON text of the resulting collection.
\<close>

theorem saveBook_edits_or_appends:
  assumes "trim title' \<noteq> []" "trim author' \<noteq> []" "trim status' \<noteq> []" and "reliable 2 w"
  shows "stored_books (saveBook (Some book) title' author' status' now w)
           = map (\<lambda>b. if id' b = id' book
                       then b\<lparr>title := title', author := author', status := status'\<rparr>
                       else b) (stored_books w)
         \<and> map id' (stored_books (saveBook (Some book) title' author' status' now w))
             = map id' (stored_books w)
         \<and> stored_books (saveBook None title' author' status' now w)
             = stored_books w @ [\<lparr>id' = now, title = title', author = author', status = status'\<rparr>]
         \<and> items (saveBook editing title' author' status' now w) BOOKS_KEY
             = Some (JSON_stringify (stored_books (saveBook editing title' author' status' now w)))"
proof -
  from assms(4) have ok: "\<not> next_fault w" "\<not> second_fault w"
    by (simp_all add: reliable_2)
  note valid = assms(1-3)
  have s: "\<And>e. stored_books (saveBook e title' author' status' now w)
             = saved e title' author' status' now (stored_books w)"
    using ok by (simp add: stored_books_saveBook [OF valid])
  have 1: "stored_books (saveBook (Some book) title' author' status' now w)
           = map (\<lambda>b. if id' b = id' book
                       then b\<lparr>title := title', author := author', status := status'\<rparr>
                       else b) (stored_books w)"
    by (simp add: s saved_edit)
  have 2: "map id' (stored_books (saveBook (Some book) title' author' status' now w))
             = map id' (stored_books w)"
    by (simp add: s map_id_saved_edit)
  have 3: "stored_books (saveBook None title' author' status' now w)
             = stored_books w @ [\<lparr>id' = now, title = title', author = author', status = status'\<rparr>]"
    by (simp add: s saved_add)
  have 4: "items (saveBook editing title' author' status' now w) BOOKS_KEY
             = Some (JSON_stringify (stored_books (saveBook editing title' author' status' now w)))"
    using ok by (simp add: s items_saveBook [OF valid] fst_getBooks)
  show ?thesis
    using 1 2 3 4 by blast
qed

theorem saveBook_edits_or_appends_witness:
  "trim ''T'' \<noteq> [] \<and> trim ''U'' \<noteq> [] \<and> trim ''V'' \<noteq> []
   \<and> reliable 2 (shelf [\<lparr>id' = 1, title = ''A'', author = ''X'', status = ''reading''\<rparr>,
                        \<lparr>id' = 2, title = ''B'', author = ''Y'', status = ''done''\<rparr>])
   \<and> stored_books (saveBook (Some \<lparr>id' = 2, title = ''B'', author = ''Y'', status = ''done''\<rparr>)
         ''T'' ''U'' ''V'' 1000
         (shelf [\<lparr>id' = 1, title = ''A'', author = ''X'', status = ''reading''\<rparr>,
                 \<lparr>id' = 2, title = ''B'', author = ''Y'', status = ''done''\<rparr>]))
       = [\<lparr>id' = 1, title = ''A'', author = ''X'', status = ''reading''\<rparr>,
          \<lparr>id' = 2, title = ''T'', author = ''U'', status = ''V''\<rparr>]
   \<and> stored_books (saveBook None ''T'' ''U'' ''V'' 1000
         (shelf [\<lparr>id' = 1, title = ''A'', author = ''X'', status = ''reading''\<rparr>,
                 \<lparr>id' = 2, title = ''B'', author = ''Y'', status = ''done''\<rparr>]))
       = [\<lparr>id' = 1, title = ''A'', author = ''X'', status = ''reading''\<rparr>,
          \<lparr>id' = 2, title = ''B'', author = ''Y'', status = ''done''\<rparr>,
          \<lparr>id' = 1000, title = ''T'', author = ''U'', status = ''V''\<rparr>]"
  (is "_ \<and> _ \<and> _ \<and> reliable 2 ?w \<and> _")
proof -
  have t: "trim ''T'' \<noteq> []" "trim ''U'' \<noteq> []" "trim ''V'' \<noteq> []"
    by (simp_all add: trim_def is_space_def)
  have h: "reliable 2 ?w"
    by (rule reliable_shelf)
  show ?thesis
    using t h
      saveBook_edits_or_appends [OF t h,
        of "\<lparr>id' = 2, title = ''B'', author = ''Y'', status = ''done''\<rparr>" 1000 None]
    by (simp add: stored_books_shelf)
qed

text \<open>
  Claim C1 as first stated asks for a new record whenever the id matches none. The
  form opened with a book of id 7 on a store that holds only id 1 appends nothing:
  the stored collection is unchanged.
\<close>

theorem saveBook_edit_without_match_appends_nothing:
  "map id' (stored_books (shelf [\<lparr>id' = 1, title = ''A'', author = ''X'', status = ''reading''\<rparr>])) = [1]
   \<and> stored_books (saveBook (Some \<lparr>id' = 7, title = ''B'', author = ''Y'', status = ''done''\<rparr>)
         ''T'' ''U'' ''V'' 1000
         (shelf [\<lparr>id' = 1, title = ''A'', author = ''X'', status = ''reading''\<rparr>]))
       = [\<lparr>id' = 1, title = ''A'', author = ''X'', status = ''reading''\<rparr>]"
proof -
  have t: "trim ''T'' \<noteq> []" "trim ''U'' \<noteq> []" "trim ''V'' \<noteq> []"
    by (simp_all add: trim_def is_space_def)
  show ?thesis
    by (simp add: stored_books_saveBook [OF t] fault_free_shelf stored_books_shelf saved_def)
qed

text \<open>
  Claim C2 (ids stay distinct), as the code has it. The id of a new record is the
  value of \<open>Date.now()\<close>, and nothing compares it with the stored ids. When the stored
  ids are pairwise distinct and the timestamps of the submissions that add a record
  are pairwise distinct and differ from the stored ids, then after the whole sequence
  of submissions the stored ids are pairwise distinct, and so are the ids that
  \<open>getBooks\<close> returns. This holds whatever the storage does.
\<close>

theorem ids_stay_distinct:
  assumes "distinct (map id' (stored_books w) @ added_ids cs)"
  shows "distinct (map id' (stored_books (submit_all cs w)))
         \<and> distinct (map id' (fst (getBooks (submit_all cs w))))"
  using distinct_ids_submit_all [OF assms] by (simp add: fst_getBooks)

theorem ids_stay_distinct_witness:
  "distinct (map id' (stored_books (shelf [\<lparr>id' = 1, title = ''A'', author = ''X'', status = ''reading''\<rparr>]))
            @ added_ids [Submission None ''T'' ''U'' ''V'' 1000,
                         Submission (Some \<lparr>id' = 1, title = ''A'', author = ''X'', status = ''reading''\<rparr>) ''A2'' ''X'' ''done'' 1000,
                         Submission None ''  '' ''U'' ''V'' 1000,
                         Submission None ''W'' ''U'' ''V'' 1001])
   \<and> distinct (map id' (stored_books (submit_all
         [Submission None ''T'' ''U'' ''V'' 1000,
          Submission (Some \<lparr>id' = 1, title = ''A'', author = ''X'', status = ''reading''\<rparr>) ''A2'' ''X'' ''done'' 1000,
          Submission None ''  '' ''U'' ''V'' 1000,
          Submission None ''W'' ''U'' ''V'' 1001]
         (shelf [\<lparr>id' = 1, title = ''A'', author = ''X'', status = ''reading''\<rparr>]))))"
  (is "distinct (_ @ added_ids ?cs) \<and> _")
proof -
  have h: "distinct (map id' (stored_books (shelf [\<lparr>id' = 1, title = ''A'', author = ''X'', status = ''reading''\<rparr>]))
            @ added_ids ?cs)"
    by (simp add: stored_books_shelf added_ids_def passes_validation_def trim_def is_space_def)
  show ?thesis
    using h ids_stay_distinct [OF h] by simp
qed

text \<open>
  Claim C2 as first stated has no condition on the timestamps, and fails: two additions during
  the same millisecond, on an empty store, leave two records of id 1000.
\<close>

theorem same_timestamp_gives_duplicate_id:
  "distinct (map id' (stored_books (shelf [])))
   \<and> map id' (stored_books (submit_all
         [Submission None ''T'' ''U'' ''V'' 1000, Submission None ''W'' ''U'' ''V'' 1000]
         (shelf []))) = [1000, 1000]
   \<and> \<not> distinct (map id' (stored_books (submit_all
         [Submission None ''T'' ''U'' ''V'' 1000, Submission None ''W'' ''U'' ''V'' 1000]
         (shelf []))))"
proof -
  let ?c1 = "Submission None ''T'' ''U'' ''V'' 1000"
  let ?c2 = "Submission None ''W'' ''U'' ''V'' 1000"
  have v: "passes_validation ?c1" "passes_validation ?c2"
    by (simp_all add: passes_validation_def trim_def is_space_def)
  have f0: "faults (shelf []) = []"
    by (simp add: shelf_def)
  have f1: "faults (submit ?c1 (shelf [])) = []"
    using f0 by (rule faults_submit_Nil)
  have 1: "stored_books (submit ?c1 (shelf [])) = [\<lparr>id' = 1000, title = ''T'', author = ''U'', status = ''V''\<rparr>]"
    using no_faults [OF f0] by (simp add: stored_books_submit [OF v(1)] saved_add stored_books_shelf)
  have 2: "stored_books (submit ?c2 (submit ?c1 (shelf [])))
     = [\<lparr>id' = 1000, title = ''T'', author = ''U'', status = ''V''\<rparr>,
        \<lparr>id' = 1000, title = ''W'', author = ''U'', status = ''V''\<rparr>]"
    using no_faults [OF f1] by (simp add: stored_books_submit [OF v(2)] saved_add 1)
  show ?thesis
    by (simp add: 2 stored_books_shelf)
qed

text \<open>
  Claim C3 (save, then list), as the code has it. With inputs that are non-empty
  after trimming and the three storage calls going through: when the form was opened
  with a book whose id is in the stored collection, \<open>getBooks\<close> after the save returns a
  list that contains the record of that id with the three inputs as its fields; when
  the form was opened without a book, the list contains the record whose id is the
  value of \<open>Date.now()\<close> and whose fields are the three inputs.
\<close>

theorem saved_book_is_listed:
  assumes "trim title' \<noteq> []" "trim author' \<noteq> []" "trim status' \<noteq> []" and "reliable 3 w"
  shows "(id' book \<in> id' ` set (stored_books w) \<longrightarrow>
            \<lparr>id' = id' book, title = title', author = author', status = status'\<rparr>
              \<in> set (fst (getBooks (saveBook (Some book) title' author' status' now w))))
         \<and> \<lparr>id' = now, title = title', author = author', status = status'\<rparr>
              \<in> set (fst (getBooks (saveBook None title' author' status' now w)))"
proof -
  note valid = assms(1-3)
  have r2: "reliable 2 w"
    using reliable_mono [of 2 3 w] assms(4) by simp
  then have ok: "\<not> next_fault w" "\<not> second_fault w"
    by (simp_all add: reliable_2)
  have third: "\<And>e. \<not> next_fault (saveBook e title' author' status' now w)"
  proof -
    fix e
    have "faults (saveBook e title' author' status' now w) = drop 2 (faults w)"
      by (simp add: faults_saveBook [OF valid] numeral_2_eq_2 drop_Suc)
    then have "reliable 1 (saveBook e title' author' status' now w)"
      using reliable_after [of _ 2 w 1] assms(4) by simp
    then show "\<not> next_fault (saveBook e title' author' status' now w)"
      using reliable_next [of 0] by simp
  qed
  have l: "\<And>e. fst (getBooks (saveBook e title' author' status' now w))
             = saved e title' author' status' now (stored_books w)"
    using ok third by (simp add: fst_getBooks stored_books_saveBook [OF valid])
  have 1: "id' book \<in> id' ` set (stored_books w) \<longrightarrow>
            \<lparr>id' = id' book, title = title', author = author', status = status'\<rparr>
              \<in> set (fst (getBooks (saveBook (Some book) title' author' status' now w)))"
  proof
    assume "id' book \<in> id' ` set (stored_books w)"
    then obtain b where b: "b \<in> set (stored_books w)" "id' b = id' book"
      by auto
    have "b\<lparr>title := title', author := author', status := status'\<rparr>
            \<in> set (saved (Some book) title' author' status' now (stored_books w))"
      using b by (force simp: saved_edit)
    moreover have "b\<lparr>title := title', author := author', status := status'\<rparr>
            = \<lparr>id' = id' book, title = title', author = author', status = status'\<rparr>"
      using b(2) by (cases b) simp
    ultimately show "\<lparr>id' = id' book, title = title', author = author', status = status'\<rparr>
              \<in> set (fst (getBooks (saveBook (Some book) title' author' status' now w)))"
      by (simp add: l)
  qed
  have 2: "\<lparr>id' = now, title = title', author = author', status = status'\<rparr>
              \<in> set (fst (getBooks (saveBook None title' author' status' now w)))"
    by (simp add: l saved_add)
  show ?thesis
    using 1 2 by blast
qed

theorem saved_book_is_listed_witness:
  "trim ''T'' \<noteq> [] \<and> trim ''U'' \<noteq> [] \<and> trim ''V'' \<noteq> []
   \<and> reliable 3 (shelf [\<lparr>id' = 1, title = ''A'', author = ''X'', status = ''reading''\<rparr>,
                        \<lparr>id' = 2, title = ''B'', author = ''Y'', status = ''done''\<rparr>])
   \<and> 2 \<in> id' ` set (stored_books (shelf [\<lparr>id' = 1, title = ''A'', author = ''X'', status = ''reading''\<rparr>,
                        \<lparr>id' = 2, title = ''B'', author = ''Y'', status = ''done''\<rparr>]))
   \<and> \<lparr>id' = 2, title = ''T'', author = ''U'', status = ''V''\<rparr>
        \<in> set (fst (getBooks (saveBook (Some \<lparr>id' = 2, title = ''T'', author = ''U'', status = ''V''\<rparr>)
              ''T'' ''U'' ''V'' 1000
              (shelf [\<lparr>id' = 1, title = ''A'', author = ''X'', status = ''reading''\<rparr>,
                      \<lparr>id' = 2, title = ''B'', author = ''Y'', status = ''done''\<rparr>]))))
   \<and> \<lparr>id' = 1000, title = ''T'', author = ''U'', status = ''V''\<rparr>
        \<in> set (fst (getBooks (saveBook None ''T'' ''U'' ''V'' 1000
              (shelf [\<lparr>id' = 1, title = ''A'', author = ''X'', status = ''reading''\<rparr>,
                      \<lparr>id' = 2, title = ''B'', author = ''Y'', status = ''done''\<rparr>]))))"
  (is "_ \<and> _ \<and> _ \<and> reliable 3 ?w \<and> _")
proof -
  have t: "trim ''T'' \<noteq> []" "trim ''U'' \<noteq> []" "trim ''V'' \<noteq> []"
    by (simp_all add: trim_def is_space_def)
  have h: "reliable 3 ?w"
    by (rule reliable_shelf)
  show ?thesis
    using t h
      saved_book_is_listed [OF t h,
        of "\<lparr>id' = 2, title = ''T'', author = ''U'', status = ''V''\<rparr>" 1000]
    by (simp add: stored_books_shelf)
qed

text \<open>
  Claim C3 as first stated fails for a book whose id is not stored. Saving the book
  of id 7 on a store that holds only id 1 leaves a list without id 7, whether the
  form was opened with the book (nothing changes) or without it (the new record gets
  the id 1000 of the clock).
\<close>

theorem saved_book_id_not_listed:
  "trim ''T'' \<noteq> [] \<and> trim ''U'' \<noteq> [] \<and> trim ''V'' \<noteq> []
   \<and> fst (getBooks (saveBook (Some \<lparr>id' = 7, title = ''T'', author = ''U'', status = ''V''\<rparr>)
         ''T'' ''U'' ''V'' 1000
         (shelf [\<lparr>id' = 1, title = ''A'', author = ''X'', status = ''reading''\<rparr>])))
       = [\<lparr>id' = 1, title = ''A'', author = ''X'', status = ''reading''\<rparr>]
   \<and> fst (getBooks (saveBook None ''T'' ''U'' ''V'' 1000
         (shelf [\<lparr>id' = 1, title = ''A'', author = ''X'', status = ''reading''\<rparr>])))
       = [\<lparr>id' = 1, title = ''A'', author = ''X'', status = ''reading''\<rparr>,
          \<lparr>id' = 1000, title = ''T'', author = ''U'', status = ''V''\<rparr>]"
proof -
  have t: "trim ''T'' \<noteq> []" "trim ''U'' \<noteq> []" "trim ''V'' \<noteq> []"
    by (simp_all add: trim_def is_space_def)
  have f: "\<And>e books. \<not> next_fault (saveBook e ''T'' ''U'' ''V'' 1000 (shelf books))"
    by (simp add: next_fault_def faults_saveBook [OF t] shelf_def)
  show ?thesis
    using t
    by (simp add: fst_getBooks f stored_books_saveBook [OF t] fault_free_shelf stored_books_shelf
        saved_def)
qed

text \<open>
  Claim C7 (validation comes first). Whenever the title, the author or the status is
  empty after trimming, \<open>saveBook\<close> shows the alert and returns: the world it leaves is
  the world it found with the alert appended to the trace. No storage call was made
  (no \<open>GetItem\<close> or \<open>SetItem\<close> event, no outcome taken from \<open>faults\<close>), and the
  stored entries and the stored collection are unchanged.
\<close>

theorem saveBook_validation_first:
  assumes "trim title' = [] \<or> trim author' = [] \<or> trim status' = []"
  shows "saveBook editing title' author' status' now w
           = w\<lparr>trace := trace w @ [Alert ''Please fill out all fields.'']\<rparr>
         \<and> items (saveBook editing title' author' status' now w) = items w
         \<and> faults (saveBook editing title' author' status' now w) = faults w
         \<and> stored_books (saveBook editing title' author' status' now w) = stored_books w"
  using assms by (auto simp: saveBook_def emit_def stored_books_def)

theorem saveBook_validation_first_witness:
  "(trim ''A'' = [] \<or> trim ''  '' = [] \<or> trim ''reading'' = [])
   \<and> saveBook None ''A'' ''  '' ''reading'' 1000 \<lparr>items = Map.empty, faults = [True], trace = []\<rparr>
       = \<lparr>items = Map.empty, faults = [True], trace = [Alert ''Please fill out all fields.'']\<rparr>"
proof -
  have h: "trim ''A'' = [] \<or> trim ''  '' = [] \<or> trim ''reading'' = []"
    by (simp add: trim_def is_space_def)
  show ?thesis
    using h saveBook_validation_first [OF h, of None 1000 "\<lparr>items = Map.empty, faults = [True], trace = []\<rparr>"]
    by simp
qed

text \<open>
  Claim C9 (the two entries are independent). Pressing a list item writes at most the
  \<open>lastBook\<close> entry: the \<open>books\<close> entry and the stored collection stay as they were.
  \<open>saveBook\<close> and \<open>deleteBook\<close> write at most the \<open>books\<close> entry: the \<open>lastBook\<close>
  entry stays as it was. This holds whatever the storage does.
\<close>

theorem entries_independent:
  "items (renderItem_onPress item w) BOOKS_KEY = items w BOOKS_KEY
   \<and> stored_books (renderItem_onPress item w) = stored_books w
   \<and> items (renderItem_onPress item w)
       = (items w)(LAST_BOOK_KEY := items (renderItem_onPress item w) LAST_BOOK_KEY)
   \<and> items (saveBook editing title' author' status' now w) LAST_BOOK_KEY = items w LAST_BOOK_KEY
   \<and> items (saveBook editing title' author' status' now w)
       = (items w)(BOOKS_KEY := items (saveBook editing title' author' status' now w) BOOKS_KEY)
   \<and> items (deleteBook i w) LAST_BOOK_KEY = items w LAST_BOOK_KEY
   \<and> items (deleteBook i w) = (items w)(BOOKS_KEY := items (deleteBook i w) BOOKS_KEY)"
proof -
  have keys: "BOOKS_KEY \<noteq> LAST_BOOK_KEY"
    by (simp add: BOOKS_KEY_def LAST_BOOK_KEY_def)
  have press: "items (renderItem_onPress item w)
       = (if next_fault w then items w else (items w)(LAST_BOOK_KEY \<mapsto> String_number (id' item)))"
    by (simp add: renderItem_onPress_def setItem_def storage_call_def emit_def)
  have save: "items (saveBook editing title' author' status' now w) = items w
     \<or> (\<exists>v. items (saveBook editing title' author' status' now w) = (items w)(BOOKS_KEY \<mapsto> v))"
    by (cases editing)
      (auto simp: saveBook_def split_beta Let_def emit_def items_saveBooks items_getBooks)
  have del: "items (deleteBook i w) = items w \<or> (\<exists>v. items (deleteBook i w) = (items w)(BOOKS_KEY \<mapsto> v))"
    by (auto simp: items_deleteBook)
  have 1: "items (renderItem_onPress item w) BOOKS_KEY = items w BOOKS_KEY"
    using keys by (simp add: press)
  have 2: "stored_books (renderItem_onPress item w) = stored_books w"
    using 1 by (rule stored_books_cong)
  have 3: "items (renderItem_onPress item w)
       = (items w)(LAST_BOOK_KEY := items (renderItem_onPress item w) LAST_BOOK_KEY)"
    by (auto simp: press)
  have 4: "items (saveBook editing title' author' status' now w) LAST_BOOK_KEY = items w LAST_BOOK_KEY"
    using save keys by auto
  have 5: "items (saveBook editing title' author' status' now w)
       = (items w)(BOOKS_KEY := items (saveBook editing title' author' status' now w) BOOKS_KEY)"
    using save by auto
  have 6: "items (deleteBook i w) LAST_BOOK_KEY = items w LAST_BOOK_KEY"
    using del keys by auto
  have 7: "items (deleteBook i w) = (items w)(BOOKS_KEY := items (deleteBook i w) BOOKS_KEY)"
    using del by auto
  show ?thesis
    using 1 2 3 4 5 6 7 by blast
qed




text \<open>
  Claim C5 (delete), as the code has it. When the two storage calls of \<open>deleteBook\<close>
  (its read and its write) go through, the \<open>books\<close> entry afterwards is the text of
  the stored collection without the records of the given id. When, besides, no
  record has that id, the stored collection is unchanged. In both cases the user is
  only taken back to the previous screen.
\<close>

theorem deleteBook_removes_matching:
  assumes "reliable 2 w"
  shows "items (deleteBook i w) BOOKS_KEY
           = Some (JSON_stringify (filter (\<lambda>b. id' b \<noteq> i) (stored_books w)))
         \<and> stored_books (deleteBook i w) = filter (\<lambda>b. id' b \<noteq> i) (stored_books w)
         \<and> (i \<notin> id' ` set (stored_books w) \<longrightarrow> stored_books (deleteBook i w) = stored_books w)
         \<and> visible (deleteBook i w) = visible w @ [GoBack]"
proof -
  from assms have ok: "\<not> next_fault w" "\<not> second_fault w"
    by (simp_all add: reliable_2)
  have 1: "items (deleteBook i w) BOOKS_KEY
           = Some (JSON_stringify (filter (\<lambda>b. id' b \<noteq> i) (stored_books w)))"
    using ok by (simp add: items_deleteBook fst_getBooks)
  have 2: "stored_books (deleteBook i w) = filter (\<lambda>b. id' b \<noteq> i) (stored_books w)"
    using ok by (simp add: stored_books_deleteBook)
  have 3: "i \<notin> id' ` set (stored_books w) \<longrightarrow> stored_books (deleteBook i w) = stored_books w"
  proof
    assume "i \<notin> id' ` set (stored_books w)"
    then have "\<forall>b \<in> set (stored_books w). id' b \<noteq> i"
      by auto
    then show "stored_books (deleteBook i w) = stored_books w"
      using 2 by (simp add: filter_id_conv)
  qed
  show ?thesis
    using 1 2 3 visible_deleteBook by simp
qed

theorem deleteBook_removes_matching_witness:
  "reliable 2 (shelf [\<lparr>id' = 1, title = ''A'', author = ''X'', status = ''reading''\<rparr>,
                      \<lparr>id' = 2, title = ''B'', author = ''Y'', status = ''done''\<rparr>])
   \<and> stored_books (deleteBook 1 (shelf [\<lparr>id' = 1, title = ''A'', author = ''X'', status = ''reading''\<rparr>,
                      \<lparr>id' = 2, title = ''B'', author = ''Y'', status = ''done''\<rparr>]))
       = [\<lparr>id' = 2, title = ''B'', author = ''Y'', status = ''done''\<rparr>]
   \<and> 3 \<notin> id' ` set (stored_books (shelf [\<lparr>id' = 1, title = ''A'', author = ''X'', status = ''reading''\<rparr>,
                      \<lparr>id' = 2, title = ''B'', author = ''Y'', status = ''done''\<rparr>]))
   \<and> stored_books (deleteBook 3 (shelf [\<lparr>id' = 1, title = ''A'', author = ''X'', status = ''reading''\<rparr>,
                      \<lparr>id' = 2, title = ''B'', author = ''Y'', status = ''done''\<rparr>]))
       = [\<lparr>id' = 1, title = ''A'', author = ''X'', status = ''reading''\<rparr>,
          \<lparr>id' = 2, title = ''B'', author = ''Y'', status = ''done''\<rparr>]"
  (is "reliable 2 ?w \<and> _")
proof -
  have h: "reliable 2 ?w"
    by (rule reliable_shelf)
  show ?thesis
    using h deleteBook_removes_matching [OF h, of 1] deleteBook_removes_matching [OF h, of 3]
    by (simp add: stored_books_shelf)
qed

text \<open>
  Claim C5 as first stated has no condition on the storage. When the read of
  \<open>deleteBook\<close> is rejected, \<open>getBooks\<close> hands it the empty list, and the write that
  follows replaces the collection by the empty list: deleting the absent id 3 from a
  store that holds the ids 1 and 2 leaves no book.
\<close>

theorem rejected_read_makes_delete_wipe:
  "map id' (stored_books ((shelf [\<lparr>id' = 1, title = ''A'', author = ''X'', status = ''reading''\<rparr>,
                                  \<lparr>id' = 2, title = ''B'', author = ''Y'', status = ''done''\<rparr>])\<lparr>faults := [True]\<rparr>))
     = [1, 2]
   \<and> stored_books (deleteBook 3 ((shelf [\<lparr>id' = 1, title = ''A'', author = ''X'', status = ''reading''\<rparr>,
                                  \<lparr>id' = 2, title = ''B'', author = ''Y'', status = ''done''\<rparr>])\<lparr>faults := [True]\<rparr>))
     = []"
  by (simp add: stored_books_deleteBook stored_books_faults stored_books_shelf
      next_fault_def second_fault_def)

text \<open>
  Claim C10 (delete removes every match), as the code has it. When the two storage
  calls of \<open>deleteBook\<close> go through, no record of the given id is left, also when
  several records had it; every other record is kept, and the records kept are in
  their former order.
\<close>

theorem deleteBook_removes_every_match:
  assumes "reliable 2 w"
  shows "stored_books (deleteBook i w) = filter (\<lambda>b. id' b \<noteq> i) (stored_books w)
         \<and> (\<forall>b \<in> set (stored_books (deleteBook i w)). id' b \<noteq> i)
         \<and> (\<forall>b \<in> set (stored_books w). id' b \<noteq> i \<longrightarrow> b \<in> set (stored_books (deleteBook i w)))
         \<and> subseq (stored_books (deleteBook i w)) (stored_books w)"
proof -
  from assms have "\<not> next_fault w" "\<not> second_fault w"
    by (simp_all add: reliable_2)
  then have eq: "stored_books (deleteBook i w) = filter (\<lambda>b. id' b \<noteq> i) (stored_books w)"
    by (simp add: stored_books_deleteBook)
  show ?thesis
    unfolding eq by (simp add: subseq_filter_left)
qed

theorem deleteBook_removes_every_match_witness:
  "reliable 2 (shelf [\<lparr>id' = 1, title = ''A'', author = ''X'', status = ''reading''\<rparr>,
                      \<lparr>id' = 2, title = ''B'', author = ''Y'', status = ''done''\<rparr>,
                      \<lparr>id' = 1, title = ''C'', author = ''Z'', status = ''new''\<rparr>,
                      \<lparr>id' = 3, title = ''D'', author = ''W'', status = ''new''\<rparr>])
   \<and> stored_books (deleteBook 1 (shelf [\<lparr>id' = 1, title = ''A'', author = ''X'', status = ''reading''\<rparr>,
                      \<lparr>id' = 2, title = ''B'', author = ''Y'', status = ''done''\<rparr>,
                      \<lparr>id' = 1, title = ''C'', author = ''Z'', status = ''new''\<rparr>,
                      \<lparr>id' = 3, title = ''D'', author = ''W'', status = ''new''\<rparr>]))
       = [\<lparr>id' = 2, title = ''B'', author = ''Y'', status = ''done''\<rparr>,
          \<lparr>id' = 3, title = ''D'', author = ''W'', status = ''new''\<rparr>]"
  (is "reliable 2 ?w \<and> _")
proof -
  have h: "reliable 2 ?w"
    by (rule reliable_shelf)
  show ?thesis
    using h deleteBook_removes_every_match [OF h, of 1]
    by (simp add: stored_books_shelf)
qed

text \<open>
  Claim C10 as first stated has no condition on the storage. When the write of
  \<open>deleteBook\<close> is rejected, the error is logged and the collection stays as it was:
  both records of id 1 are still stored after the delete.
\<close>

theorem rejected_write_makes_delete_remove_nothing:
  "stored_books (deleteBook 1 ((shelf [\<lparr>id' = 1, title = ''A'', author = ''X'', status = ''reading''\<rparr>,
                                  \<lparr>id' = 2, title = ''B'', author = ''Y'', status = ''done''\<rparr>,
                                  \<lparr>id' = 1, title = ''C'', author = ''Z'', status = ''new''\<rparr>])\<lparr>faults := [False, True]\<rparr>))
     = [\<lparr>id' = 1, title = ''A'', author = ''X'', status = ''reading''\<rparr>,
        \<lparr>id' = 2, title = ''B'', author = ''Y'', status = ''done''\<rparr>,
        \<lparr>id' = 1, title = ''C'', author = ''Z'', status = ''new''\<rparr>]"
  by (simp add: stored_books_deleteBook stored_books_faults stored_books_shelf
      next_fault_def second_fault_def)

text \<open>
  Claim C6 (dangling last-viewed pointer), as the code has it. A list item is pressed,
  then the book of that id is deleted, then the home screen looks up the last book.
  When the five storage calls go through (the write of the pointer, the read and the
  write of the delete, the two reads of the lookup), the \<open>lastBook\<close> entry still holds
  the id of the deleted book, the lookup finds no book (the screen shows "No book
  opened yet."), and the lookup logs no error: its trace is the two reads.
\<close>

theorem dangling_last_viewed_not_found:
  assumes "reliable 5 w"
  shows "(let w' = deleteBook (id' item) (renderItem_onPress item w) in
            items w' LAST_BOOK_KEY = Some (String_number (id' item))
          \<and> fst (fetchLastBook w') = None
          \<and> trace (snd (fetchLastBook w')) = trace w' @ [GetItem LAST_BOOK_KEY, GetItem BOOKS_KEY])"
proof -
  define w1 where "w1 = renderItem_onPress item w"
  define w2 where "w2 = deleteBook (id' item) w1"
  have f0: "\<not> next_fault w"
    using assms by (simp add: eval_nat_numeral reliable_Suc)
  have d1: "faults w1 = drop 1 (faults w)"
    by (simp add: w1_def faults_onPress drop_Suc)
  have r1: "reliable 4 w1"
    using reliable_after [OF d1, of 4] assms by simp
  then have f1: "\<not> next_fault w1" "\<not> second_fault w1"
    using reliable_mono [of 2 4 w1] reliable_2 [of w1] by simp_all
  have d2: "faults w2 = drop 2 (faults w1)"
    by (simp add: w2_def faults_deleteBook numeral_2_eq_2 drop_Suc)
  have r2: "reliable 2 w2"
    using reliable_after [OF d2, of 2] r1 by simp
  then have f2: "\<not> next_fault w2" "\<not> second_fault w2"
    by (simp_all add: reliable_2)
  have p1: "items w1 LAST_BOOK_KEY = Some (String_number (id' item))"
    using f0 by (simp add: w1_def items_onPress)
  have p2: "items w2 LAST_BOOK_KEY = Some (String_number (id' item))"
    using p1 keys_differ by (simp add: w2_def items_deleteBook)
  have s2: "stored_books w2 = filter (\<lambda>b. id' b \<noteq> id' item) (stored_books w1)"
    using f1 by (simp add: w2_def stored_books_deleteBook)
  have i2: "items w2 BOOKS_KEY = Some (JSON_stringify (filter (\<lambda>b. id' b \<noteq> id' item) (fst (getBooks w1))))"
    using f1 by (simp add: w2_def items_deleteBook)
  have "fst (fetchLastBook w2) = find (\<lambda>b. String_number (id' b) = String_number (id' item)) (stored_books w2)"
    using f2 p2 by (simp add: fst_fetchLastBook)
  also have "\<dots> = None"
    by (auto simp: s2 find_None_iff dest: String_number_inj)
  finally have n: "fst (fetchLastBook w2) = None" .
  have t: "trace (snd (fetchLastBook w2)) = trace w2 @ [GetItem LAST_BOOK_KEY, GetItem BOOKS_KEY]"
    using f2 i2 p2 by (rule trace_fetchLastBook) (rule String_number_nonempty)
  show ?thesis
    using p2 n t by (simp add: w1_def w2_def)
qed

theorem dangling_last_viewed_not_found_witness:
  "reliable 5 (shelf [\<lparr>id' = 1, title = ''A'', author = ''X'', status = ''reading''\<rparr>,
                      \<lparr>id' = 2, title = ''B'', author = ''Y'', status = ''done''\<rparr>])
   \<and> items (deleteBook 1 (renderItem_onPress \<lparr>id' = 1, title = ''A'', author = ''X'', status = ''reading''\<rparr>
         (shelf [\<lparr>id' = 1, title = ''A'', author = ''X'', status = ''reading''\<rparr>,
                 \<lparr>id' = 2, title = ''B'', author = ''Y'', status = ''done''\<rparr>]))) LAST_BOOK_KEY
       = Some (String_number 1)
   \<and> fst (fetchLastBook (deleteBook 1 (renderItem_onPress \<lparr>id' = 1, title = ''A'', author = ''X'', status = ''reading''\<rparr>
         (shelf [\<lparr>id' = 1, title = ''A'', author = ''X'', status = ''reading''\<rparr>,
                 \<lparr>id' = 2, title = ''B'', author = ''Y'', status = ''done''\<rparr>])))) = None"
  (is "reliable 5 ?w \<and> _")
proof -
  have h: "reliable 5 ?w"
    by (rule reliable_shelf)
  show ?thesis
    using h dangling_last_viewed_not_found [OF h, of "\<lparr>id' = 1, title = ''A'', author = ''X'', status = ''reading''\<rparr>"]
    by (simp add: Let_def)
qed

text \<open>
  Claim C6 as first stated has no condition on the storage. When the write of
  \<open>deleteBook\<close> is rejected, the user is taken back as after a delete, but the book is
  still stored, and the lookup finds it.
\<close>

theorem rejected_delete_leaves_last_book_found:
  "fst (fetchLastBook (deleteBook 1
         (renderItem_onPress \<lparr>id' = 1, title = ''A'', author = ''X'', status = ''reading''\<rparr>
            ((shelf [\<lparr>id' = 1, title = ''A'', author = ''X'', status = ''reading''\<rparr>,
                     \<lparr>id' = 2, title = ''B'', author = ''Y'', status = ''done''\<rparr>])\<lparr>faults := [False, False, True]\<rparr>))))
     = Some \<lparr>id' = 1, title = ''A'', author = ''X'', status = ''reading''\<rparr>"
proof -
  let ?b = "\<lparr>id' = 1, title = ''A'', author = ''X'', status = ''reading''\<rparr>"
  let ?c = "\<lparr>id' = 2, title = ''B'', author = ''Y'', status = ''done''\<rparr>"
  let ?start = "(shelf [?b, ?c])\<lparr>faults := [False, False, True]\<rparr>"
  let ?pressed = "renderItem_onPress ?b ?start"
  let ?after = "deleteBook 1 ?pressed"
  have f1: "faults ?pressed = [False, True]"
    by (simp add: faults_onPress)
  have i1: "items ?pressed = [BOOKS_KEY \<mapsto> JSON_stringify [?b, ?c], LAST_BOOK_KEY \<mapsto> String_number 1]"
    by (simp add: items_onPress next_fault_def items_shelf)
  have s1: "second_fault ?pressed"
    by (simp add: second_fault_def next_fault_def f1)
  have i2: "items ?after = items ?pressed"
    using s1 by (simp add: items_deleteBook)
  have f2: "faults ?after = []"
    by (simp add: faults_deleteBook f1)
  have ok: "\<not> next_fault ?after" "\<not> second_fault ?after"
    using no_faults [OF f2] by simp_all
  have "items ?after BOOKS_KEY = Some (JSON_stringify [?b, ?c])"
    using keys_differ by (simp add: i2 i1)
  then have st: "stored_books ?after = [?b, ?c]"
    by (rule stored_books_written)
  have p: "items ?after LAST_BOOK_KEY = Some (String_number 1)"
    by (simp add: i2 i1)
  show ?thesis
    by (simp add: fst_fetchLastBook [OF ok] p st)
qed

text \<open>
  Claim C8 (persisted layout). The collection is written under the key \<open>books\<close> as the
  JSON text of the list of records, which reads back as that list. The last-viewed
  pointer is written under the key \<open>lastBook\<close> as \<open>String(id)\<close>, the decimal numeral of
  the id, which determines the id. \<open>fetchLastBook\<close> resolves the pointer by looking
  for the first stored book whose \<open>String(id)\<close> equals the stored text; an absent
  pointer resolves to no book.
\<close>

theorem persisted_layout:
  "BOOKS_KEY = ''books'' \<and> LAST_BOOK_KEY = ''lastBook''
   \<and> (reliable 1 w \<longrightarrow> items (saveBooks books w) ''books'' = Some (JSON_stringify books))
   \<and> JSON_parse (JSON_stringify books) = Some books
   \<and> (reliable 1 w \<longrightarrow>
        items (renderItem_onPress item w) ''lastBook'' = Some (String_number (id' item)))
   \<and> (String_number m = String_number n) = (m = n)
   \<and> (reliable 2 w \<longrightarrow>
        fst (fetchLastBook w) =
          (case items w ''lastBook'' of
             None \<Rightarrow> None
           | Some lastBookId \<Rightarrow> find (\<lambda>b. String_number (id' b) = lastBookId) (stored_books w)))"
proof -
  have 1: "reliable 1 w \<longrightarrow> items (saveBooks books w) ''books'' = Some (JSON_stringify books)"
    using reliable_next [of 0 w] by (simp add: items_saveBooks BOOKS_KEY_def)
  have 2: "reliable 1 w \<longrightarrow>
        items (renderItem_onPress item w) ''lastBook'' = Some (String_number (id' item))"
    using reliable_next [of 0 w] by (simp add: items_onPress LAST_BOOK_KEY_def)
  have 3: "(String_number m = String_number n) = (m = n)"
    by (auto dest: String_number_inj)
  have 4: "reliable 2 w \<longrightarrow>
        fst (fetchLastBook w) =
          (case items w ''lastBook'' of
             None \<Rightarrow> None
           | Some lastBookId \<Rightarrow> find (\<lambda>b. String_number (id' b) = lastBookId) (stored_books w))"
    using fst_fetchLastBook [of w] reliable_2 [of w] by (simp add: LAST_BOOK_KEY_def)
  show ?thesis
    using 1 2 3 4 JSON_parse_stringify [of books] by (simp add: BOOKS_KEY_def LAST_BOOK_KEY_def)
qed

theorem persisted_layout_witness:
  "reliable 2 (shelf [\<lparr>id' = 1, title = ''A'', author = ''X'', status = ''reading''\<rparr>])
   \<and> items (saveBooks [\<lparr>id' = 1, title = ''A'', author = ''X'', status = ''reading''\<rparr>] (shelf [])) ''books''
       = Some ''[{\"id\":1,\"title\":\"A\",\"author\":\"X\",\"status\":\"reading\"}]''
   \<and> items (renderItem_onPress \<lparr>id' = 1712345678901, title = ''B'', author = ''Y'', status = ''done''\<rparr> (shelf []))
         ''lastBook'' = Some ''1712345678901''
   \<and> fst (fetchLastBook (shelf [\<lparr>id' = 1, title = ''A'', author = ''X'', status = ''reading''\<rparr>])) = None
   \<and> fst (fetchLastBook (renderItem_onPress \<lparr>id' = 1, title = ''A'', author = ''X'', status = ''reading''\<rparr>
        (shelf [\<lparr>id' = 1, title = ''A'', author = ''X'', status = ''reading''\<rparr>])))
       = Some \<lparr>id' = 1, title = ''A'', author = ''X'', status = ''reading''\<rparr>"
proof -
  let ?b = "\<lparr>id' = 1, title = ''A'', author = ''X'', status = ''reading''\<rparr>"
  let ?c = "\<lparr>id' = 1712345678901, title = ''B'', author = ''Y'', status = ''done''\<rparr>"
  have r: "\<And>n books. reliable n (shelf books)"
    by (rule reliable_shelf)
  have t: "JSON_stringify [?b] = ''[{\"id\":1,\"title\":\"A\",\"author\":\"X\",\"status\":\"reading\"}]''"
    by (simp add: JSON_stringify_def stringify_book_def quote_def escape_def dquote_def
        backslash_def String_number_def digits.simps digit_char_simps)
  have n: "String_number 1712345678901 = ''1712345678901''"
    by (simp add: String_number_def digits.simps digit_char_simps)
  let ?w = "renderItem_onPress ?b (shelf [?b])"
  have rw: "reliable 2 ?w"
    by (simp add: reliable_def faults_onPress shelf_def)
  have iw: "items ?w ''lastBook'' = Some (String_number 1)"
    by (simp add: items_onPress shelf_def next_fault_def LAST_BOOK_KEY_def)
  have "items ?w BOOKS_KEY = items (shelf [?b]) BOOKS_KEY"
    using keys_differ by (simp add: items_onPress)
  then have sw: "stored_books ?w = [?b]"
    using stored_books_cong [of ?w "shelf [?b]"] by (simp add: stored_books_shelf)
  have 1: "items (saveBooks [?b] (shelf [])) ''books'' = Some (JSON_stringify [?b])"
    using persisted_layout [of "shelf []" "[?b]" ?c 0 0]
    by (simp add: r BOOKS_KEY_def LAST_BOOK_KEY_def)
  have 2: "items (renderItem_onPress ?c (shelf [])) ''lastBook'' = Some (String_number 1712345678901)"
    using persisted_layout [of "shelf []" "[?b]" ?c 0 0]
    by (simp add: r BOOKS_KEY_def LAST_BOOK_KEY_def)
  have 3: "fst (fetchLastBook (shelf [?b])) = None"
    using persisted_layout [of "shelf [?b]" "[]" ?b 0 0]
    by (simp add: r items_shelf BOOKS_KEY_def LAST_BOOK_KEY_def)
  have 4: "fst (fetchLastBook ?w) = Some ?b"
    using persisted_layout [of ?w "[]" ?b 0 0] rw
    by (simp add: iw sw BOOKS_KEY_def LAST_BOOK_KEY_def)
  show ?thesis
    using 1 2 3 4 by (simp add: r t n)
qed

end
